theory Spec2Isabelle
  imports Complex_Main "HOL-Library.FSet" "HOL-Library.Sublist"
begin

section \<open>Python strings\<close>

text \<open>
  A Python \<open>str\<close> is a sequence of Unicode code points. The model is \<open>string\<close>, a list of
  \<open>char\<close>, each \<open>char\<close> standing for the code point of the same number, so the model
  covers the strings over the code points 0 to 255 (ASCII and the Latin-1 supplement). The
  character classes below are the ones of the Unicode database on that range.
\<close>

definition cp :: "char \<Rightarrow> nat" where
  "cp c = of_char c"

definition underscore :: char where
  "underscore = CHR ''_''"

definition backslash :: char where
  "backslash = CHR 0x5C"

definition dquote :: char where
  "dquote = CHR 0x22"

definition is_ascii_word :: "char \<Rightarrow> bool" where
  \<comment> \<open>the class \<open>[A-Za-z0-9_]\<close>\<close>
  "is_ascii_word c =
     ((48 \<le> cp c \<and> cp c \<le> 57) \<or> (65 \<le> cp c \<and> cp c \<le> 90) \<or> cp c = 95 \<or>
      (97 \<le> cp c \<and> cp c \<le> 122))"

definition isalnum :: "char \<Rightarrow> bool" where
  \<comment> \<open>\<open>str.isalnum\<close> on one character: a letter, a decimal, a digit or a numeric.
      Beyond ASCII these are the ordinal indicators, the micro sign, the superscripts 1 to 3,
      the three vulgar fractions, and the accented letters (not the signs at D7 and F7).\<close>
  "isalnum c =
     ((48 \<le> cp c \<and> cp c \<le> 57) \<or> (65 \<le> cp c \<and> cp c \<le> 90) \<or>
      (97 \<le> cp c \<and> cp c \<le> 122) \<or>
      cp c = 170 \<or> cp c = 178 \<or> cp c = 179 \<or> cp c = 181 \<or> cp c = 185 \<or> cp c = 186 \<or>
      (188 \<le> cp c \<and> cp c \<le> 190) \<or>
      (192 \<le> cp c \<and> cp c \<le> 214) \<or> (216 \<le> cp c \<and> cp c \<le> 246) \<or> 248 \<le> cp c)"

definition is_word :: "char \<Rightarrow> bool" where
  \<comment> \<open>the class \<open>\<bsol>w\<close> of \<open>re\<close> on a \<open>str\<close> pattern: alphanumeric or underscore\<close>
  "is_word c = (isalnum c \<or> c = underscore)"

definition lower_char :: "char \<Rightarrow> char" where
  "lower_char c =
     (if (65 \<le> cp c \<and> cp c \<le> 90) \<or> (192 \<le> cp c \<and> cp c \<le> 214) \<or> (216 \<le> cp c \<and> cp c \<le> 222)
      then char_of (cp c + 32) else c)"

definition lower :: "string \<Rightarrow> string" where
  \<comment> \<open>\<open>str.lower\<close>\<close>
  "lower s = map lower_char s"

definition strip_chars :: "(char \<Rightarrow> bool) \<Rightarrow> string \<Rightarrow> string" where
  \<comment> \<open>\<open>str.strip\<close>: drops the characters of the class at both ends\<close>
  "strip_chars P s = rev (dropWhile P (rev (dropWhile P s)))"

fun contains :: "string \<Rightarrow> string \<Rightarrow> bool" where
  \<comment> \<open>\<open>x in s\<close> on strings: \<open>contains x s\<close> searches \<open>s\<close> for \<open>x\<close> from the left\<close>
  "contains x [] = (x = [])"
| "contains x (c # cs) = (prefix x (c # cs) \<or> contains x cs)"

definition is_space :: "char \<Rightarrow> bool" where
  \<comment> \<open>\<open>str.isspace\<close> on one character\<close>
  "is_space c = ((9 \<le> cp c \<and> cp c \<le> 13) \<or> (28 \<le> cp c \<and> cp c \<le> 32) \<or> cp c = 133 \<or> cp c = 160)"

definition strip :: "string \<Rightarrow> string" where
  \<comment> \<open>\<open>str.strip()\<close>\<close>
  "strip s = strip_chars is_space s"

definition upper_char :: "char \<Rightarrow> string" where
  \<comment> \<open>The upper case of the sharp s (DF) is the two letters SS. The upper case of the
      micro sign (B5) and of the y with diaeresis (FF) is beyond the range of the model:
      they are left as they are, which no comparison with an ASCII text can tell.\<close>
  "upper_char c =
     (if (97 \<le> cp c \<and> cp c \<le> 122) \<or> (224 \<le> cp c \<and> cp c \<le> 246) \<or> (248 \<le> cp c \<and> cp c \<le> 254)
      then [char_of (cp c - 32)]
      else if cp c = 223 then ''SS'' else [c])"

definition upper :: "string \<Rightarrow> string" where
  \<comment> \<open>\<open>str.upper\<close>\<close>
  "upper s = concat (map upper_char s)"

section \<open>Python values\<close>

text \<open>
  The values that the decoded document and the cells of the table hold. A \<open>float\<close> is a
  binary64 number: \<open>Finite q\<close> is the one of value \<open>q\<close> (zero with the positive sign), the
  others are the negative zero, the infinities and the NaN. \<open>PNaT\<close> is the missing date of
  pandas. An exception is a value of \<open>error\<close>; \<open>Exception msg\<close> stands for every exception that
  the script does not name.
\<close>

datatype pyfloat = Finite rat | NegZero | PosInf | NegInf | NaN

datatype date = Date (year: int) (month: int) (day: int)

datatype pyval =
    PNone
  | PBool bool
  | PInt int
  | PFloat pyfloat
  | PStr string
  | PList "pyval list"
  | PDict "(string \<times> pyval) list"
  | PDate date
  | PNaT

datatype error = JSONDecodeError | ValueError | Exception string

subsection \<open>Rounding to binary64\<close>

text \<open>
  \<open>binary64 a b\<close> is the binary64 number nearest to \<open>a / b\<close> for positive \<open>a\<close> and \<open>b\<close>, ties
  going to the even significand, and \<open>None\<close> when the rounded value is beyond the largest
  finite number.
\<close>

function bit_length :: "int \<Rightarrow> int" where
  "bit_length n = (if n \<le> 0 then 0 else 1 + bit_length (n div 2))"
  by pat_completeness auto
termination
  by (relation "measure nat") auto

declare bit_length.simps [simp del]

definition round_half_even :: "int \<Rightarrow> int \<Rightarrow> int" where
  "round_half_even a b =
     (let q = a div b; r = a mod b in
      if 2 * r < b then q else if b < 2 * r then q + 1 else if even q then q else q + 1)"

definition pow2 :: "int \<Rightarrow> int" where
  "pow2 k = 2 ^ nat k"

definition binary64 :: "int \<Rightarrow> int \<Rightarrow> rat option" where
  "binary64 a b =
     (let e0 = bit_length a - bit_length b;
          e = (if (if 0 \<le> e0 then b * pow2 e0 \<le> a else b \<le> a * pow2 (- e0)) then e0 else e0 - 1);
          qe = max (e - 52) (- 1074);
          n = (if 0 \<le> qe then round_half_even a (b * pow2 qe)
               else round_half_even (a * pow2 (- qe)) b)
      in if 1024 < bit_length n + qe then None
         else Some (if 0 \<le> qe then of_int (n * pow2 qe) else Fract n (pow2 (- qe))))"

subsection \<open>\<open>float\<close> and \<open>int\<close>\<close>

text \<open>
  \<open>py_float\<close> is \<open>float(value)\<close> and \<open>py_int\<close> is \<open>int\<close> of a float; \<open>None\<close> stands for the
  exception that the call raises (the script catches all of them alike). The text of a
  float may have underscores between digits and white space around it; it is a decimal
  numeral with an optional fraction and exponent, or an infinity or a NaN.
\<close>

definition is_digit :: "char \<Rightarrow> bool" where
  "is_digit c = (48 \<le> cp c \<and> cp c \<le> 57)"

definition int_of_digits :: "string \<Rightarrow> int" where
  "int_of_digits ds = foldl (\<lambda>acc c. 10 * acc + (int (cp c) - 48)) 0 ds"

definition float_space :: "char \<Rightarrow> bool" where
  \<comment> \<open>the white space that \<open>float\<close> drops around the numeral\<close>
  "float_space c = ((9 \<le> cp c \<and> cp c \<le> 13) \<or> cp c = 32 \<or> cp c = 133 \<or> cp c = 160)"

fun drop_underscores :: "char \<Rightarrow> string \<Rightarrow> string option" where
  "drop_underscores prev [] = (if prev = underscore then None else Some [])"
| "drop_underscores prev (c # cs) =
     (if c = underscore then (if is_digit prev then drop_underscores c cs else None)
      else if prev = underscore \<and> \<not> is_digit c then None
      else map_option ((#) c) (drop_underscores c cs))"

definition parse_sign :: "string \<Rightarrow> bool \<times> string" where
  "parse_sign s =
     (case s of [] \<Rightarrow> (False, [])
      | c # cs \<Rightarrow> if c = CHR ''-'' then (True, cs) else if c = CHR ''+'' then (False, cs)
                  else (False, s))"

definition exponent_part :: "string \<Rightarrow> int option" where
  "exponent_part r =
     (case r of [] \<Rightarrow> Some 0
      | c # cs \<Rightarrow>
          if c = CHR ''e'' \<or> c = CHR ''E''
          then (let (neg, ds) = parse_sign cs in
                if ds \<noteq> [] \<and> list_all is_digit ds
                then Some (if neg then - int_of_digits ds else int_of_digits ds) else None)
          else None)"

definition decimal_literal :: "string \<Rightarrow> (int \<times> int) option" where
  "decimal_literal s =
     (let ip = takeWhile is_digit s; r1 = dropWhile is_digit s;
          (fp, r2) = (case r1 of [] \<Rightarrow> ([], r1)
                      | c # cs \<Rightarrow> if c = CHR ''.'' then (takeWhile is_digit cs, dropWhile is_digit cs)
                                  else ([], r1))
      in if ip = [] \<and> fp = [] then None
         else (case exponent_part r2 of None \<Rightarrow> None
               | Some e \<Rightarrow> Some (int_of_digits (ip @ fp), e - int (length fp))))"

definition round_decimal :: "bool \<Rightarrow> int \<Rightarrow> int \<Rightarrow> pyfloat" where
  "round_decimal neg m e =
     (if m = 0 then (if neg then NegZero else Finite 0)
      else (case (if 0 \<le> e then binary64 (m * 10 ^ nat e) 1 else binary64 m (10 ^ nat (- e))) of
              None \<Rightarrow> (if neg then NegInf else PosInf)
            | Some v \<Rightarrow> if v = 0 then (if neg then NegZero else Finite 0)
                       else Finite (if neg then - v else v)))"

definition float_literal :: "string \<Rightarrow> pyfloat option" where
  "float_literal s =
     (let (neg, t) = parse_sign s; l = lower t in
      if l = ''inf'' \<or> l = ''infinity'' then Some (if neg then NegInf else PosInf)
      else if l = ''nan'' then Some NaN
      else (case decimal_literal t of None \<Rightarrow> None
            | Some (m, e) \<Rightarrow> Some (round_decimal neg m e)))"

definition float_from_string :: "string \<Rightarrow> pyfloat option" where
  "float_from_string s =
     (case drop_underscores (CHR 0x00) s of None \<Rightarrow> None
      | Some t \<Rightarrow> float_literal (strip_chars float_space t))"

definition py_float :: "pyval \<Rightarrow> pyfloat option" where
  "py_float v =
     (case v of
        PStr s \<Rightarrow> float_from_string s
      | PInt i \<Rightarrow> (if i = 0 then Some (Finite 0)
                   else (case binary64 \<bar>i\<bar> 1 of None \<Rightarrow> None
                         | Some q \<Rightarrow> Some (Finite (if i < 0 then - q else q))))
      | PFloat f \<Rightarrow> Some f
      | PBool b \<Rightarrow> Some (Finite (if b then 1 else 0))
      | _ \<Rightarrow> None)"

definition py_int :: "pyfloat \<Rightarrow> int option" where
  "py_int f =
     (case f of Finite q \<Rightarrow> Some (if 0 \<le> q then \<lfloor>q\<rfloor> else \<lceil>q\<rceil>)
      | NegZero \<Rightarrow> Some 0
      | _ \<Rightarrow> None)"

subsection \<open>The truth value of \<open>pd.isna\<close>\<close>

text \<open>
  On a scalar \<open>pd.isna\<close> answers with a boolean. On a list it answers with an array of
  booleans, of the shape that \<open>np.asarray\<close> finds for the list: the lengths on which the
  nested lists agree, level by level. The truth value of an array is the one of its element
  when it has exactly one, and a \<open>ValueError\<close> when it has two or more. For an array with no
  element it is a \<open>ValueError\<close> too since NumPy 2.2 (and was false, with a warning, before).
\<close>

fun common_prefix :: "nat list \<Rightarrow> nat list \<Rightarrow> nat list" where
  "common_prefix (x # xs) (y # ys) = (if x = y then x # common_prefix xs ys else [])"
| "common_prefix _ _ = []"

fun np_shape :: "pyval \<Rightarrow> nat list" where
  "np_shape (PList xs) =
     length xs # (case map np_shape xs of [] \<Rightarrow> [] | s # ss \<Rightarrow> foldl common_prefix s ss)"
| "np_shape _ = []"

fun sole_leaf :: "pyval \<Rightarrow> pyval" where
  "sole_leaf (PList [x]) = sole_leaf x"
| "sole_leaf v = v"

definition checknull :: "pyval \<Rightarrow> bool" where
  "checknull v = (v = PNone \<or> v = PFloat NaN \<or> v = PNaT)"

definition isna_truth :: "pyval \<Rightarrow> error + bool" where
  "isna_truth v =
     (case v of
        PList xs \<Rightarrow> (if prod_list (np_shape v) = 1 then Inr (checknull (sole_leaf v))
                     else Inl ValueError)
      | _ \<Rightarrow> Inr (checknull v))"

section \<open>Step 2: decoding the response\<close>

text \<open>
  \<open>cleaned_text\<close> is the substitution of the regular expression: a backslash that the
  look-ahead does not see followed by one of the nine characters is replaced by two.
\<close>

definition escape_followers :: "char list" where
  "escape_followers =
     [dquote, backslash, CHR ''/'', CHR ''b'', CHR ''f'', CHR ''n'', CHR ''r'', CHR ''t'', CHR ''u'']"

definition followed_by_escape :: "string \<Rightarrow> bool" where
  "followed_by_escape cs = (case cs of [] \<Rightarrow> False | d # _ \<Rightarrow> d \<in> set escape_followers)"

fun cleaned_text :: "string \<Rightarrow> string" where
  "cleaned_text [] = []"
| "cleaned_text (c # cs) =
     (if c = backslash \<and> \<not> followed_by_escape cs then backslash # backslash # cleaned_text cs
      else c # cleaned_text cs)"

text \<open>
  The decoder takes the two parsers it calls: \<open>response.json()\<close> on the text of the
  response, then \<open>json.loads\<close> on the cleaned text. Its result has what it prints, and either
  the exception that leaves it or the data, with the branch that produced the data.
\<close>

datatype parse_path = Strict_parse | Repaired_parse

datatype message =
    Still_failed error
  | Response_preview string
  | Cleaned_columns "string list"
  | Table_created string
  | Row_error "pyval list" string
  | Data_inserted

definition decode_json ::
  "(string \<Rightarrow> error + pyval) \<Rightarrow> (string \<Rightarrow> error + pyval) \<Rightarrow> string \<Rightarrow>
     message list \<times> (error + parse_path \<times> pyval)" where
  "decode_json response_json loads bad_json =
     (case response_json bad_json of
        Inr data \<Rightarrow> ([], Inr (Strict_parse, data))
      | Inl err \<Rightarrow>
          if err \<noteq> JSONDecodeError then ([], Inl err)
          else (case loads (cleaned_text bad_json) of
                  Inr data \<Rightarrow> ([], Inr (Repaired_parse, data))
                | Inl e \<Rightarrow>
                    ([Still_failed e, Response_preview (take 500 (cleaned_text bad_json))], Inl e)))"

subsection \<open>The JSON parser\<close>

text \<open>
  A model of \<open>json.loads\<close>, after RFC 8259 and the documentation of the \<open>json\<close> module
  (which also reads \<open>NaN\<close>, \<open>Infinity\<close> and \<open>-Infinity\<close>). An escape \<open>\<bsol>uXXXX\<close> above 00FF
  denotes a character outside the range of the model and is reported as such. The fuel of
  \<open>json_loads\<close> is more than the length of the text, and each call takes a character.
\<close>

definition json_space :: "char \<Rightarrow> bool" where
  "json_space c = (cp c = 32 \<or> cp c = 9 \<or> cp c = 10 \<or> cp c = 13)"

definition skip_ws :: "string \<Rightarrow> string" where
  "skip_ws s = dropWhile json_space s"

definition hex_value :: "char \<Rightarrow> nat option" where
  "hex_value c =
     (if 48 \<le> cp c \<and> cp c \<le> 57 then Some (cp c - 48)
      else if 65 \<le> cp c \<and> cp c \<le> 70 then Some (cp c - 55)
      else if 97 \<le> cp c \<and> cp c \<le> 102 then Some (cp c - 87)
      else None)"

definition hex4 :: "string \<Rightarrow> nat option" where
  "hex4 s =
     (case map hex_value (take 4 s) of
        [Some a, Some b, Some c, Some d] \<Rightarrow> Some (((a * 16 + b) * 16 + c) * 16 + d)
      | _ \<Rightarrow> None)"

definition simple_escape :: "char \<Rightarrow> char option" where
  "simple_escape e =
     (if e = dquote then Some dquote
      else if e = backslash then Some backslash
      else if e = CHR ''/'' then Some (CHR ''/'')
      else if e = CHR ''b'' then Some (CHR 0x08)
      else if e = CHR ''f'' then Some (CHR 0x0C)
      else if e = CHR ''n'' then Some (CHR 0x0A)
      else if e = CHR ''r'' then Some (CHR 0x0D)
      else if e = CHR ''t'' then Some (CHR 0x09)
      else None)"

function scan_string :: "string \<Rightarrow> error + string \<times> string" where
  "scan_string [] = Inl JSONDecodeError"
| "scan_string (c # cs) =
     (if c = dquote then Inr ([], cs)
      else if c = backslash then
        (case cs of
           [] \<Rightarrow> Inl JSONDecodeError
         | e # rest \<Rightarrow>
             if e = CHR ''u'' then
               (case hex4 rest of
                  None \<Rightarrow> Inl JSONDecodeError
                | Some n \<Rightarrow>
                    if 256 \<le> n then Inl (Exception ''code point above 255'')
                    else (case scan_string (drop 4 rest) of
                            Inl err \<Rightarrow> Inl err
                          | Inr (str, r) \<Rightarrow> Inr (char_of n # str, r)))
             else
               (case simple_escape e of
                  None \<Rightarrow> Inl JSONDecodeError
                | Some ch \<Rightarrow>
                    (case scan_string rest of
                       Inl err \<Rightarrow> Inl err
                     | Inr (str, r) \<Rightarrow> Inr (ch # str, r))))
      else if cp c < 32 then Inl JSONDecodeError
      else (case scan_string cs of
              Inl err \<Rightarrow> Inl err
            | Inr (str, r) \<Rightarrow> Inr (c # str, r)))"
  by pat_completeness auto
termination
  by (relation "measure length") auto

definition scan_number :: "string \<Rightarrow> (pyval \<times> string) option" where
  \<comment> \<open>the longest match of \<open>-?(0|[1-9][0-9]*)(\<bsol>.[0-9]+)?([eE][-+]?[0-9]+)?\<close>\<close>
  "scan_number s =
     (let (neg, s1) = (case s of [] \<Rightarrow> (False, s)
                       | c # cs \<Rightarrow> if c = CHR ''-'' then (True, cs) else (False, s));
          ip = (case s1 of [] \<Rightarrow> []
                | c # cs \<Rightarrow> if c = CHR ''0'' then [c] else takeWhile is_digit s1);
          s2 = drop (length ip) s1;
          fp = (case s2 of [] \<Rightarrow> []
                | c # cs \<Rightarrow> if c = CHR ''.'' then takeWhile is_digit cs else []);
          s3 = (if fp = [] then s2 else drop (1 + length fp) s2);
          (ex, s4) =
            (case s3 of [] \<Rightarrow> ([], s3)
             | c # cs \<Rightarrow>
                 if c = CHR ''e'' \<or> c = CHR ''E'' then
                   (let (sg, ds) = (case cs of [] \<Rightarrow> ([], cs)
                                    | d # r \<Rightarrow> if d = CHR ''-'' \<or> d = CHR ''+'' then ([d], r)
                                               else ([], cs));
                        es = takeWhile is_digit ds
                    in if es = [] then ([], s3) else (c # sg @ es, dropWhile is_digit ds))
                 else ([], s3))
      in if ip = [] then None
         else if fp = [] \<and> ex = []
         then Some (PInt (if neg then - int_of_digits ip else int_of_digits ip), s4)
         else (case float_from_string ((if neg then ''-'' else '''') @ ip @
                       (if fp = [] then [] else CHR ''.'' # fp) @ ex) of
                 None \<Rightarrow> None
               | Some f \<Rightarrow> Some (PFloat f, s4)))"

definition dict_set :: "(string \<times> pyval) list \<Rightarrow> string \<Rightarrow> pyval \<Rightarrow> (string \<times> pyval) list" where
  \<comment> \<open>\<open>d[k] = v\<close> on a \<open>dict\<close>: a new key goes last, a known key keeps its place\<close>
  "dict_set d k v =
     (if k \<in> fst ` set d then map (\<lambda>(k', v'). if k' = k then (k', v) else (k', v')) d
      else d @ [(k, v)])"

fun parse_value :: "nat \<Rightarrow> string \<Rightarrow> error + pyval \<times> string"
  and parse_elements :: "nat \<Rightarrow> string \<Rightarrow> error + pyval list \<times> string"
  and parse_members :: "nat \<Rightarrow> string \<Rightarrow> error + (string \<times> pyval) list \<times> string"
where
  "parse_value 0 s = Inl (Exception ''out of fuel'')"
| "parse_value (Suc n) [] = Inl JSONDecodeError"
| "parse_value (Suc n) (c # cs) =
     (if c = dquote then
        (case scan_string cs of Inl err \<Rightarrow> Inl err | Inr (str, r) \<Rightarrow> Inr (PStr str, r))
      else if c = CHR ''{'' then
        (case skip_ws cs of
           [] \<Rightarrow> Inl JSONDecodeError
         | d # r \<Rightarrow>
             if d = CHR ''}'' then Inr (PDict [], r)
             else (case parse_members n (d # r) of
                     Inl err \<Rightarrow> Inl err
                   | Inr (ms, r') \<Rightarrow> Inr (PDict (foldl (\<lambda>acc (k, v). dict_set acc k v) [] ms), r')))
      else if c = CHR ''['' then
        (case skip_ws cs of
           [] \<Rightarrow> Inl JSONDecodeError
         | d # r \<Rightarrow>
             if d = CHR '']'' then Inr (PList [], r)
             else (case parse_elements n (d # r) of
                     Inl err \<Rightarrow> Inl err
                   | Inr (vs, r') \<Rightarrow> Inr (PList vs, r')))
      else if prefix ''null'' (c # cs) then Inr (PNone, drop 4 (c # cs))
      else if prefix ''true'' (c # cs) then Inr (PBool True, drop 4 (c # cs))
      else if prefix ''false'' (c # cs) then Inr (PBool False, drop 5 (c # cs))
      else (case scan_number (c # cs) of
              Some res \<Rightarrow> Inr res
            | None \<Rightarrow>
                if prefix ''NaN'' (c # cs) then Inr (PFloat NaN, drop 3 (c # cs))
                else if prefix ''Infinity'' (c # cs) then Inr (PFloat PosInf, drop 8 (c # cs))
                else if prefix ''-Infinity'' (c # cs) then Inr (PFloat NegInf, drop 9 (c # cs))
                else Inl JSONDecodeError))"
| "parse_elements 0 s = Inl (Exception ''out of fuel'')"
| "parse_elements (Suc n) s =
     (case parse_value n s of
        Inl err \<Rightarrow> Inl err
      | Inr (v, r) \<Rightarrow>
          (case skip_ws r of
             [] \<Rightarrow> Inl JSONDecodeError
           | d # r' \<Rightarrow>
               if d = CHR '']'' then Inr ([v], r')
               else if d = CHR '','' then
                 (case parse_elements n (skip_ws r') of
                    Inl err \<Rightarrow> Inl err
                  | Inr (vs, r'') \<Rightarrow> Inr (v # vs, r''))
               else Inl JSONDecodeError))"
| "parse_members 0 s = Inl (Exception ''out of fuel'')"
| "parse_members (Suc n) [] = Inl JSONDecodeError"
| "parse_members (Suc n) (c # cs) =
     (if c \<noteq> dquote then Inl JSONDecodeError
      else (case scan_string cs of
              Inl err \<Rightarrow> Inl err
            | Inr (k, r) \<Rightarrow>
                (case skip_ws r of
                   [] \<Rightarrow> Inl JSONDecodeError
                 | d # r1 \<Rightarrow>
                     if d \<noteq> CHR '':'' then Inl JSONDecodeError
                     else (case parse_value n (skip_ws r1) of
                             Inl err \<Rightarrow> Inl err
                           | Inr (v, r2) \<Rightarrow>
                               (case skip_ws r2 of
                                  [] \<Rightarrow> Inl JSONDecodeError
                                | e # r3 \<Rightarrow>
                                    if e = CHR ''}'' then Inr ([(k, v)], r3)
                                    else if e = CHR '','' then
                                      (case parse_members n (skip_ws r3) of
                                         Inl err \<Rightarrow> Inl err
                                       | Inr (ms, r4) \<Rightarrow> Inr ((k, v) # ms, r4))
                                    else Inl JSONDecodeError)))))"

definition json_loads :: "string \<Rightarrow> error + pyval" where
  "json_loads s =
     (case parse_value (Suc (length s)) (skip_ws s) of
        Inl err \<Rightarrow> Inl err
      | Inr (v, r) \<Rightarrow> if skip_ws r = [] then Inr v else Inl JSONDecodeError)"

section \<open>Step 4: cleaning column names\<close>

definition postgres_reserved_keywords :: "string set" where
  "postgres_reserved_keywords =
     {''group'', ''order'', ''select'', ''user'', ''where'', ''table'', ''from'', ''join'', ''by''}"

definition sub_nonword :: "string \<Rightarrow> string" where
  \<comment> \<open>\<open>re.sub(r'[^\<bsol>w]', '_', col)\<close>\<close>
  "sub_nonword col = map (\<lambda>c. if is_word c then c else underscore) col"

function collapse_underscores :: "string \<Rightarrow> string" where
  \<comment> \<open>\<open>re.sub(r'_+', '_', s)\<close>: each maximal run of underscores becomes one underscore\<close>
  "collapse_underscores [] = []"
| "collapse_underscores (c # cs) =
     (if c = underscore then underscore # collapse_underscores (dropWhile (\<lambda>d. d = underscore) cs)
      else c # collapse_underscores cs)"
  by pat_completeness auto
termination
  by (relation "measure length") (auto simp: length_dropWhile_le less_Suc_eq_le)

definition clean_column :: "string \<Rightarrow> string" where
  "clean_column col =
     (let col_clean = sub_nonword col;
          col_clean = collapse_underscores col_clean;
          col_clean = strip_chars (\<lambda>d. d = underscore) col_clean
      in if lower col_clean \<in> postgres_reserved_keywords then col_clean @ [underscore]
         else col_clean)"

text \<open>
  The loop over \<open>df.columns\<close> keeps the list \<open>cleaned_columns\<close> and the set \<open>seen\<close>.
  \<open>str_nat\<close> is \<open>str\<close> on a non-negative integer (what the f-string puts for
  \<open>suffix\<close>), \<open>suffixed\<close> is the f-string, and \<open>find_suffix\<close> is the inner \<open>while\<close> loop.
\<close>

definition digit_char :: "nat \<Rightarrow> char" where
  "digit_char d = char_of (48 + d)"

fun str_nat :: "nat \<Rightarrow> string" where
  "str_nat n = (if n < 10 then [digit_char n] else str_nat (n div 10) @ [digit_char (n mod 10)])"

declare str_nat.simps [simp del]

definition suffixed :: "string \<Rightarrow> nat \<Rightarrow> string" where
  "suffixed clean_col suffix' = clean_col @ [underscore] @ str_nat suffix'"

definition digits_value :: "string \<Rightarrow> nat" where
  "digits_value ds = foldl (\<lambda>acc c. 10 * acc + (cp c - 48)) 0 ds"

lemma cp_digit: "d < 10 \<Longrightarrow> cp (digit_char d) - 48 = d"
  by (simp add: cp_def digit_char_def)

lemma digits_value_str_nat: "digits_value (str_nat n) = n"
proof (induction n rule: str_nat.induct)
  case (1 n)
  show ?case
  proof (cases "n < 10")
    case True then show ?thesis by (simp add: str_nat.simps[of n] digits_value_def cp_digit)
  next
    case False
    with 1 have "digits_value (str_nat (n div 10)) = n div 10" by simp
    with False show ?thesis
      by (simp add: str_nat.simps[of n] digits_value_def cp_digit)
  qed
qed

lemma inj_str_nat: "inj str_nat"
  by (metis digits_value_str_nat injI)

lemma inj_suffixed: "inj (suffixed c)"
  using inj_str_nat by (auto simp: inj_def suffixed_def)

function find_suffix :: "string fset \<Rightarrow> string \<Rightarrow> nat \<Rightarrow> nat" where
  "find_suffix seen clean_col suffix' =
     (if suffixed clean_col suffix' |\<in>| seen then find_suffix seen clean_col (suffix' + 1)
      else suffix')"
  by pat_completeness auto
termination
proof (relation "measure (\<lambda>(seen, clean_col, suffix'). card {j. suffix' \<le> j \<and> suffixed clean_col j |\<in>| seen})")
  show "wf (measure (\<lambda>(seen, clean_col, suffix'). card {j. suffix' \<le> j \<and> suffixed clean_col j |\<in>| seen}))"
    by simp
next
  fix seen :: "string fset" and clean_col :: string and suffix' :: nat
  assume a: "suffixed clean_col suffix' |\<in>| seen"
  have fin: "finite {j. suffixed clean_col j |\<in>| seen}"
  proof -
    have "{j. suffixed clean_col j |\<in>| seen} = suffixed clean_col -` fset seen" by auto
    then show ?thesis using finite_vimageI[OF finite_fset inj_suffixed] by metis
  qed
  have "suffix' \<in> {j. suffix' \<le> j \<and> suffixed clean_col j |\<in>| seen}"
    using a by simp
  moreover have "suffix' \<notin> {j. suffix' + 1 \<le> j \<and> suffixed clean_col j |\<in>| seen}"
    by simp
  moreover have "{j. suffix' + 1 \<le> j \<and> suffixed clean_col j |\<in>| seen} \<subseteq> {j. suffix' \<le> j \<and> suffixed clean_col j |\<in>| seen}"
    by auto
  ultimately have "{j. suffix' + 1 \<le> j \<and> suffixed clean_col j |\<in>| seen} \<subset> {j. suffix' \<le> j \<and> suffixed clean_col j |\<in>| seen}"
    by blast
  moreover have "finite {j. suffix' \<le> j \<and> suffixed clean_col j |\<in>| seen}"
    using fin by simp
  ultimately have "card {j. suffix' + 1 \<le> j \<and> suffixed clean_col j |\<in>| seen} < card {j. suffix' \<le> j \<and> suffixed clean_col j |\<in>| seen}"
    by (rule psubset_card_mono[rotated])
  then show "((seen, clean_col, suffix' + 1), (seen, clean_col, suffix'))
       \<in> measure (\<lambda>(seen, clean_col, suffix'). card {j. suffix' \<le> j \<and> suffixed clean_col j |\<in>| seen})"
    by simp
qed

declare find_suffix.simps [simp del]

definition dedup_step :: "string list \<times> string fset \<Rightarrow> string \<Rightarrow> string list \<times> string fset" where
  "dedup_step st col =
     (let (cleaned_columns, seen) = st;
          clean_col = clean_column col;
          clean_col = (if clean_col |\<in>| seen
                       then suffixed clean_col (find_suffix seen clean_col 1)
                       else clean_col)
      in (cleaned_columns @ [clean_col], finsert clean_col seen))"

definition clean_columns :: "string list \<Rightarrow> string list" where
  "clean_columns columns = fst (foldl dedup_step ([], {||}) columns)"

section \<open>Step 6: inferring the column types\<close>

definition infer_pg_type :: "string \<Rightarrow> string" where
  "infer_pg_type column_name =
     (let col_lower = lower column_name in
      if contains ''date'' col_lower \<and> col_lower \<noteq> ''billmonth'' then ''DATE''
      else if contains ''month'' col_lower then ''TEXT''
      else if list_ex (\<lambda>x. contains x col_lower) [''qty'', ''points''] then ''INTEGER''
      else if list_ex (\<lambda>x. contains x col_lower)
                [''amount'', ''price'', ''gst'', ''disc'', ''charges'', ''percent'', ''volume'']
           then ''NUMERIC(10,2)''
      else ''TEXT'')"

definition table_name :: string where
  "table_name = ''sales_data''"

definition column_with_type :: "string \<Rightarrow> string" where
  \<comment> \<open>the f-string \<open>"{col}" {infer_pg_type(col)}\<close> of one field of the schema\<close>
  "column_with_type col = [dquote] @ col @ [dquote] @ '' '' @ infer_pg_type col"

definition columns_with_types :: "string list \<Rightarrow> string list" where
  "columns_with_types columns = map column_with_type columns"

section \<open>Step 8: cleaning the values\<close>

text \<open>
  What pandas does with a document or a date is not modelled: \<open>library\<close> holds
  \<open>pd.json_normalize\<close> (the columns and the rows of the table), the conversion of the
  \<open>BillDate\<close> column \<open>pd.to_datetime(..., errors='coerce').dt.date\<close>, the conversion of one
  value \<open>pd.to_datetime(value).date()\<close> (\<open>None\<close> when it raises), and \<open>str\<close> of a value that is
  not a string.
\<close>

record library =
  json_normalize :: "pyval \<Rightarrow> error + string list \<times> pyval list list"
  to_datetime_coerce :: "pyval list \<Rightarrow> error + pyval list"
  to_datetime_date :: "pyval \<Rightarrow> pyval option"
  str_other :: "pyval \<Rightarrow> string"

definition py_str :: "library \<Rightarrow> pyval \<Rightarrow> string" where
  "py_str L v = (case v of PStr s \<Rightarrow> s | _ \<Rightarrow> str_other L v)"

definition clean_value :: "library \<Rightarrow> pyval \<Rightarrow> string \<Rightarrow> error + pyval" where
  "clean_value L value expected_type =
     (case isna_truth value of
        Inl err \<Rightarrow> Inl err
      | Inr na \<Rightarrow>
          if na \<or> (case value of PStr s \<Rightarrow> upper (strip s) \<in> set [''N/A'', '''', ''NA'']
                    | _ \<Rightarrow> False)
          then Inr PNone
          else if expected_type = ''numeric'' then
            (case py_float value of Some f \<Rightarrow> Inr (PFloat f) | None \<Rightarrow> Inr PNone)
          else if expected_type = ''integer'' then
            (case py_float value of
               Some f \<Rightarrow> (case py_int f of Some i \<Rightarrow> Inr (PInt i) | None \<Rightarrow> Inr PNone)
             | None \<Rightarrow> Inr PNone)
          else if expected_type = ''date'' then
            (case to_datetime_date L value of Some d \<Rightarrow> Inr d | None \<Rightarrow> Inr PNone)
          else Inr (PStr (strip (py_str L value))))"

section \<open>Steps 5, 7, 9 and 10: the database and the run\<close>

text \<open>
  The run is the list of what it prints and the list of the calls it makes on the
  connection. A database is what it answers: the message of the exception that a call
  raises after the calls before it, or \<open>None\<close>. Every row of the table has one cell for each
  column.
\<close>

datatype statement =
    Create_table_if_not_exists string "string list"
  | Insert_into string "string list" nat

datatype db_call = Connect | Cursor | Execute statement "pyval list" | Commit | Cursor_close | Conn_close

type_synonym database = "db_call list \<Rightarrow> db_call \<Rightarrow> string option"

record run_state =
  printed :: "message list"
  calls :: "db_call list"

type_synonym step = "run_state \<Rightarrow> run_state \<times> error option"

definition print :: "message \<Rightarrow> step" where
  "print x st = (st\<lparr>printed := printed st @ [x]\<rparr>, None)"

definition db_do :: "database \<Rightarrow> db_call \<Rightarrow> step" where
  "db_do db c st = (st\<lparr>calls := calls st @ [c]\<rparr>, map_option Exception (db (calls st) c))"

definition and_then :: "step \<Rightarrow> step \<Rightarrow> step" where
  "and_then f g st = (case f st of (st', None) \<Rightarrow> g st' | (st', Some err) \<Rightarrow> (st', Some err))"

definition expected_type_of :: "string \<Rightarrow> string" where
  \<comment> \<open>\<open>column_types[col].split('(')[0].lower()\<close>\<close>
  "expected_type_of col = lower (takeWhile (\<lambda>c. c \<noteq> CHR ''('') (infer_pg_type col))"

fun cleaned_row :: "library \<Rightarrow> string list \<Rightarrow> pyval list \<Rightarrow> error + pyval list" where
  \<comment> \<open>the list comprehension over the cells of a row, from the left; the first exception
      of \<open>clean_value\<close> leaves it\<close>
  "cleaned_row L (col # cols) (val # vals) =
     (case clean_value L val (expected_type_of col) of
        Inl err \<Rightarrow> Inl err
      | Inr v \<Rightarrow> (case cleaned_row L cols vals of Inl err \<Rightarrow> Inl err | Inr vs \<Rightarrow> Inr (v # vs)))"
| "cleaned_row L _ _ = Inr []"

definition insert_query :: "string list \<Rightarrow> statement" where
  "insert_query cols = Insert_into table_name cols (length cols)"

fun insert_rows :: "database \<Rightarrow> library \<Rightarrow> string list \<Rightarrow> pyval list list \<Rightarrow> step" where
  \<comment> \<open>the loop of step 9: the row is cleaned outside the \<open>try\<close>, the \<open>execute\<close> is inside\<close>
  "insert_rows db L cols [] st = (st, None)"
| "insert_rows db L cols (row # rows) st =
     (case cleaned_row L cols row of
        Inl err \<Rightarrow> (st, Some err)
      | Inr cr \<Rightarrow>
          (let c = Execute (insert_query cols) cr;
               st1 = st\<lparr>calls := calls st @ [c]\<rparr>;
               st2 = (case db (calls st) c of
                        None \<Rightarrow> st1
                      | Some msg \<Rightarrow> st1\<lparr>printed := printed st1 @ [Row_error cr msg]\<rparr>)
           in insert_rows db L cols rows st2))"

definition load_rows :: "database \<Rightarrow> library \<Rightarrow> string list \<Rightarrow> pyval list list \<Rightarrow> step" where
  \<comment> \<open>steps 9 and 10: the insert loop, the commit, the two \<open>close\<close> calls, the last message\<close>
  "load_rows db L cols rows =
     and_then (insert_rows db L cols rows)
       (and_then (db_do db Commit)
         (and_then (db_do db Cursor_close)
           (and_then (db_do db Conn_close) (print Data_inserted))))"

definition index_of :: "string \<Rightarrow> string list \<Rightarrow> nat" where
  "index_of x xs = length (takeWhile (\<lambda>y. y \<noteq> x) xs)"

definition clean_bill_date :: "library \<Rightarrow> string list \<Rightarrow> pyval list list \<Rightarrow> error + pyval list list" where
  \<comment> \<open>step 7: the column named \<open>BillDate\<close>, when there is one, is replaced by its dates\<close>
  "clean_bill_date L cols rows =
     (if ''BillDate'' \<in> set cols then
        (let i = index_of ''BillDate'' cols in
         case to_datetime_coerce L (map (\<lambda>row. row ! i) rows) of
           Inl err \<Rightarrow> Inl err
         | Inr dates \<Rightarrow> Inr (map (\<lambda>(row, d). row[i := d]) (zip rows dates)))
      else Inr rows)"

definition create_table_query :: "string list \<Rightarrow> statement" where
  "create_table_query cols = Create_table_if_not_exists table_name (columns_with_types cols)"

definition run_from_data :: "library \<Rightarrow> database \<Rightarrow> pyval \<Rightarrow> step" where
  \<comment> \<open>steps 3 to 10\<close>
  "run_from_data L db data st =
     (case json_normalize L data of
        Inl err \<Rightarrow> (st, Some err)
      | Inr (raw_columns, raw_rows) \<Rightarrow>
          (let cols = clean_columns raw_columns in
           and_then (print (Cleaned_columns cols))
             (and_then (db_do db Connect)
               (and_then (db_do db Cursor)
                 (and_then (db_do db (Execute (create_table_query cols) []))
                   (and_then (db_do db Commit)
                     (and_then (print (Table_created table_name))
                       (\<lambda>st'. case clean_bill_date L cols raw_rows of
                                Inl err \<Rightarrow> (st', Some err)
                              | Inr rows \<Rightarrow> load_rows db L cols rows st')))))) st))"

definition run ::
  "(string \<Rightarrow> error + pyval) \<Rightarrow> (string \<Rightarrow> error + pyval) \<Rightarrow> library \<Rightarrow> database \<Rightarrow> string \<Rightarrow>
     run_state \<times> error option" where
  "run response_json loads L db response_text =
     (case decode_json response_json loads response_text of
        (out, Inl err) \<Rightarrow> (\<lparr>printed = out, calls = []\<rparr>, Some err)
      | (out, Inr (_, data)) \<Rightarrow> run_from_data L db data \<lparr>printed = out, calls = []\<rparr>)"

section \<open>The specification's reading of the type inference\<close>

text \<open>
  The specification describes \<open>infer_pg_type\<close> as a case-insensitive substring match, the
  first match winning. \<open>ci_substring pat name\<close> says so directly: some segment of the name
  is the pattern up to the case of its letters. \<open>infer_pg_type_spec\<close> is the list of rules of
  the specification, in its order.
\<close>

definition ci_substring :: "string \<Rightarrow> string \<Rightarrow> bool" where
  "ci_substring pat name = (\<exists>seg. sublist seg name \<and> lower seg = lower pat)"

definition infer_pg_type_spec :: "string \<Rightarrow> string" where
  "infer_pg_type_spec name =
    (if ci_substring ''date'' name \<and> lower name \<noteq> ''billmonth'' then ''DATE''
     else if ci_substring ''month'' name then ''TEXT''
     else if ci_substring ''qty'' name \<or> ci_substring ''points'' name then ''INTEGER''
     else if ci_substring ''amount'' name \<or> ci_substring ''price'' name \<or>
             ci_substring ''gst'' name \<or> ci_substring ''disc'' name \<or>
             ci_substring ''charges'' name \<or> ci_substring ''percent'' name \<or>
             ci_substring ''volume'' name then ''NUMERIC(10,2)''
     else ''TEXT'')"

section \<open>The examples of the specification\<close>

text \<open>
  \<open>stray_example\<close> is the text \<open>"C:\<bsol>Users"\<close>, quotes included. \<open>mixed_example\<close> is the array
  \<open>["C:\<bsol>\<bsol>Users", "D:\<bsol>Temp"]\<close>: its first string has the legitimate escape of a
  backslash, its second a stray backslash. \<open>sample_text\<close> is the response of the end-to-end
  scenario and \<open>sample_data\<close> the document it denotes. \<open>sample_library\<close> is one library that
  does on the scenario what pandas does.
\<close>

definition stray_example :: string where
  "stray_example = [dquote] @ ''C:'' @ [backslash] @ ''Users'' @ [dquote]"

definition mixed_example :: string where
  "mixed_example =
     ''['' @ [dquote] @ ''C:'' @ [backslash, backslash] @ ''Users'' @ [dquote] @ '', '' @
     [dquote] @ ''D:'' @ [backslash] @ ''Temp'' @ [dquote] @ '']''"

definition sample_text :: string where
  "sample_text =
     ''[{'' @ [dquote] @ ''BillDate'' @ [dquote] @ '':'' @ [dquote] @ ''2024-01-05'' @ [dquote] @ '','' @
     [dquote] @ ''Qty'' @ [dquote] @ '':'' @ [dquote] @ ''3'' @ [dquote] @ '','' @
     [dquote] @ ''GSTAmount'' @ [dquote] @ '':'' @ [dquote] @ ''45.00'' @ [dquote] @ ''}]''"

definition sample_data :: pyval where
  "sample_data =
     PList [PDict [(''BillDate'', PStr ''2024-01-05''), (''Qty'', PStr ''3''), (''GSTAmount'', PStr ''45.00'')]]"

definition sample_library :: library where
  "sample_library = \<lparr>
     json_normalize = (\<lambda>d. case d of PList [PDict kvs] \<Rightarrow> Inr (map fst kvs, [map snd kvs])
                             | _ \<Rightarrow> Inl (Exception ''not modelled'')),
     to_datetime_coerce = (\<lambda>vs. Inr (map (\<lambda>v. if v = PStr ''2024-01-05'' then PDate (Date 2024 1 5) else PNaT) vs)),
     to_datetime_date = (\<lambda>v. case v of PDate d \<Rightarrow> Some (PDate d) | _ \<Rightarrow> None),
     str_other = (\<lambda>v. [])\<rparr>"

section \<open>Notions used to state the properties\<close>

text \<open>
  \<open>is_sentinel\<close> is the test of the missing markers on strings. \<open>executes\<close> is the list of the
  \<open>INSERT\<close> calls of the rows of a table, and \<open>row_errors\<close> the messages that the loop prints
  for the ones the database refuses.
\<close>

definition is_sentinel :: "pyval \<Rightarrow> bool" where
  "is_sentinel v = (case v of PStr s \<Rightarrow> upper (strip s) \<in> {''N/A'', '''', ''NA''} | _ \<Rightarrow> False)"

definition executes :: "library \<Rightarrow> string list \<Rightarrow> pyval list list \<Rightarrow> db_call list" where
  "executes L cols rows =
     map (\<lambda>row. Execute (insert_query cols) (case cleaned_row L cols row of Inr cr \<Rightarrow> cr | Inl _ \<Rightarrow> [])) rows"

fun row_errors :: "database \<Rightarrow> db_call list \<Rightarrow> db_call list \<Rightarrow> message list" where
  "row_errors db h [] = []"
| "row_errors db h (c # cs) =
     (case db h c of
        None \<Rightarrow> []
      | Some msg \<Rightarrow> (case c of Execute q cr \<Rightarrow> [Row_error cr msg] | _ \<Rightarrow> [])) @
     row_errors db (h @ [c]) cs"


section \<open>Substring search and case\<close>

lemma contains_sublist: "contains x s \<longleftrightarrow> sublist x s"
  by (induction s) (auto simp: sublist_Cons_right)

lemma sublist_map_ex: "sublist ys (map f xs) \<longleftrightarrow> (\<exists>seg. sublist seg xs \<and> map f seg = ys)"
proof
  assume "sublist ys (map f xs)"
  then obtain ps ss where "map f xs = ps @ ys @ ss" by (auto simp: sublist_def)
  then obtain a r where a: "xs = a @ r" "map f r = ys @ ss"
    by (metis map_eq_append_conv)
  then obtain b c where "r = b @ c" "map f b = ys"
    by (metis map_eq_append_conv)
  with a have "xs = a @ b @ c" "map f b = ys" by simp_all
  then show "\<exists>seg. sublist seg xs \<and> map f seg = ys" by (auto simp: sublist_def)
next
  assume "\<exists>seg. sublist seg xs \<and> map f seg = ys"
  then show "sublist ys (map f xs)" using map_mono_sublist by blast
qed

lemma lower_lit: "lower ''date'' = ''date''" "lower ''month'' = ''month''" "lower ''qty'' = ''qty''"
  "lower ''points'' = ''points''" "lower ''amount'' = ''amount''" "lower ''price'' = ''price''"
  "lower ''gst'' = ''gst''" "lower ''disc'' = ''disc''" "lower ''charges'' = ''charges''"
  "lower ''percent'' = ''percent''" "lower ''volume'' = ''volume''"
  by code_simp+

lemma contains_lower: "lower pat = pat \<Longrightarrow> contains pat (lower name) \<longleftrightarrow> ci_substring pat name"
  by (simp add: contains_sublist ci_substring_def lower_def sublist_map_ex)


lemma underscore_word: "is_word underscore" by (simp add: is_word_def)
lemma underscore_not_alnum: "\<not> isalnum underscore" by code_simp

lemma set_sub_nonword: "set (sub_nonword s) \<subseteq> Collect is_word"
  by (auto simp: sub_nonword_def underscore_word)

lemma set_collapse: "set (collapse_underscores s) \<subseteq> set s"
proof (induction s rule: collapse_underscores.induct)
  case 1 show ?case by simp
next
  case (2 c cs)
  show ?case
  proof (cases "c = underscore")
    case True
    with 2 have "set (collapse_underscores (dropWhile (\<lambda>d. d = underscore) cs)) \<subseteq> set cs"
      using set_dropWhileD by fastforce
    with True show ?thesis by auto
  next
    case False with 2 show ?thesis by auto
  qed
qed

lemma strip_sublist: "sublist (strip_chars P s) s"
proof -
  have "suffix (dropWhile P s) s" by (rule suffix_dropWhile)
  moreover have "suffix (dropWhile P (rev (dropWhile P s))) (rev (dropWhile P s))" by (rule suffix_dropWhile)
  then have "prefix (strip_chars P s) (dropWhile P s)"
    unfolding strip_chars_def by (metis rev_rev_ident suffix_to_prefix)
  ultimately show ?thesis
    by (meson prefix_imp_sublist suffix_imp_sublist sublist_order.order_trans)
qed

lemma set_strip: "set (strip_chars P s) \<subseteq> set s"
  using strip_sublist set_mono_sublist by blast

lemma strip_no_prefix: "strip_chars P s = [] \<or> \<not> P (hd (strip_chars P s))"
proof (cases "strip_chars P s = []")
  case True then show ?thesis by simp
next
  case False
  let ?d = "dropWhile P s"
  let ?r = "dropWhile P (rev ?d)"
  from False have ne: "?r \<noteq> []" by (simp add: strip_chars_def)
  then have dne: "?d \<noteq> []" by (cases "?d") simp_all
  have "suffix ?r (rev ?d)" by (rule suffix_dropWhile)
  then obtain zs where z: "rev ?d = zs @ ?r" by (auto simp: suffix_def)
  then have "?d = rev ?r @ rev zs" by (metis rev_append rev_rev_ident)
  with ne have "hd (rev ?r) = hd ?d" by (metis hd_append2 rev_is_Nil_conv)
  moreover have "\<not> P (hd ?d)" using dne hd_dropWhile by blast
  ultimately show ?thesis by (simp add: strip_chars_def)
qed

lemma strip_no_suffix: "strip_chars P s = [] \<or> \<not> P (last (strip_chars P s))"
proof (cases "strip_chars P s = []")
  case True then show ?thesis by simp
next
  case False
  let ?r = "dropWhile P (rev (dropWhile P s))"
  from False have ne: "?r \<noteq> []" by (simp add: strip_chars_def)
  then have "\<not> P (hd ?r)" using hd_dropWhile by blast
  with ne show ?thesis by (simp add: strip_chars_def last_rev)
qed

section \<open>Properties of the column cleaning\<close>

lemma hd_collapse: "s \<noteq> [] \<Longrightarrow> collapse_underscores s \<noteq> [] \<and> hd (collapse_underscores s) = hd s"
  by (cases s) auto

lemma collapse_no_double: "\<not> sublist [underscore, underscore] (collapse_underscores s)"
proof (induction s rule: collapse_underscores.induct)
  case 1 show ?case by simp
next
  case (2 c cs)
  show ?case
  proof (cases "c = underscore")
    case True
    let ?d = "dropWhile (\<lambda>d. d = underscore) cs"
    from 2 True have ih: "\<not> sublist [underscore, underscore] (collapse_underscores ?d)" by simp
    have "\<not> prefix [underscore] (collapse_underscores ?d)"
    proof (cases "?d = []")
      case True
      then have "collapse_underscores ?d = []" by (metis collapse_underscores.simps(1))
      then show ?thesis by simp
    next
      case False
      then have "hd ?d \<noteq> underscore" using hd_dropWhile by blast
      with False hd_collapse[of ?d] show ?thesis
        by (cases "collapse_underscores ?d") auto
    qed
    with ih True show ?thesis by (auto simp: sublist_Cons_right)
  next
    case False
    with 2 show ?thesis by (auto simp: sublist_Cons_right)
  qed
qed

lemma filter_dropWhile_neg: "filter (\<lambda>c. \<not> P c) (dropWhile P xs) = filter (\<lambda>c. \<not> P c) xs"
  by (induction xs) auto

lemma filter_collapse:
  "filter (\<lambda>c. c \<noteq> underscore) (collapse_underscores s) = filter (\<lambda>c. c \<noteq> underscore) s"
proof (induction s rule: collapse_underscores.induct)
  case 1 show ?case by simp
next
  case (2 c cs)
  show ?case
  proof (cases "c = underscore")
    case True
    with 2 show ?thesis using filter_dropWhile_neg[of "\<lambda>d. d = underscore" cs] by simp
  next
    case False with 2 show ?thesis by simp
  qed
qed

lemma filter_strip: "filter (\<lambda>c. \<not> P c) (strip_chars P s) = filter (\<lambda>c. \<not> P c) s"
proof -
  have "filter (\<lambda>c. \<not> P c) (strip_chars P s) = rev (filter (\<lambda>c. \<not> P c) (dropWhile P (rev (dropWhile P s))))"
    by (simp add: strip_chars_def rev_filter)
  also have "\<dots> = rev (filter (\<lambda>c. \<not> P c) (rev (dropWhile P s)))"
    by (simp add: filter_dropWhile_neg)
  also have "\<dots> = filter (\<lambda>c. \<not> P c) (dropWhile P s)"
    by (simp add: rev_filter[symmetric])
  finally show ?thesis by (simp add: filter_dropWhile_neg)
qed

lemma filter_sub_nonword:
  "filter (\<lambda>c. c \<noteq> underscore) (sub_nonword s) = filter isalnum s"
  by (induction s) (auto simp: sub_nonword_def is_word_def underscore_not_alnum)

definition cleaned_base :: "string \<Rightarrow> string" where
  "cleaned_base col = strip_chars (\<lambda>d. d = underscore) (collapse_underscores (sub_nonword col))"

lemma clean_column_base:
  "clean_column col = (if lower (cleaned_base col) \<in> postgres_reserved_keywords
     then cleaned_base col @ [underscore] else cleaned_base col)"
  by (simp add: clean_column_def cleaned_base_def Let_def)

lemma filter_base: "filter (\<lambda>c. c \<noteq> underscore) (cleaned_base s) = filter isalnum s"
  using filter_strip[of "\<lambda>d. d = underscore"] 
  by (simp add: cleaned_base_def filter_collapse filter_sub_nonword)

lemma clean_column_keeps_alnum:
  "filter (\<lambda>c. c \<noteq> underscore) (clean_column s) = filter isalnum s"
  by (simp add: clean_column_base filter_base)

lemma base_word: "set (cleaned_base s) \<subseteq> Collect is_word"
  unfolding cleaned_base_def using set_strip set_collapse set_sub_nonword by (meson subset_trans)

lemma base_no_prefix: "\<not> prefix [underscore] (cleaned_base s)"
  using strip_no_prefix[of "\<lambda>d. d = underscore" "collapse_underscores (sub_nonword s)"]
  by (cases "cleaned_base s") (auto simp: cleaned_base_def)

lemma base_no_suffix: "\<not> suffix [underscore] (cleaned_base s)"
  using strip_no_suffix[of "\<lambda>d. d = underscore" "collapse_underscores (sub_nonword s)"]
  by (auto simp: cleaned_base_def suffix_def)

lemma base_no_double: "\<not> sublist [underscore, underscore] (cleaned_base s)"
  unfolding cleaned_base_def
  using collapse_no_double strip_sublist sublist_order.order_trans by blast

lemma kw_nonempty: "lower b \<in> postgres_reserved_keywords \<Longrightarrow> b \<noteq> []"
  by (auto simp: postgres_reserved_keywords_def lower_def)

lemma no_double_snoc:
  "\<not> sublist [underscore, underscore] b \<Longrightarrow> \<not> suffix [underscore] b \<Longrightarrow>
   \<not> sublist [underscore, underscore] (b @ [underscore])"
proof
  assume a: "\<not> sublist [underscore, underscore] b" "\<not> suffix [underscore] b"
    and s: "sublist [underscore, underscore] (b @ [underscore])"
  have "\<not> sublist [underscore, underscore] [underscore]"
    by (auto dest: sublist_length_le)
  with s a(1) obtain xs1 xs2 where x: "[underscore, underscore] = xs1 @ xs2" "suffix xs1 b" "prefix xs2 [underscore]"
    by (auto simp: sublist_append)
  from x(3) have "xs2 = [] \<or> xs2 = [underscore]" by (cases xs2) auto
  then show False
  proof
    assume "xs2 = []" with x a(1) show False by auto
  next
    assume "xs2 = [underscore]"
    with x(1) have "xs1 = [underscore]" by (cases xs1) auto
    with x(2) a(2) show False by simp
  qed
qed

section \<open>Properties of the deduplication loop\<close>

lemma find_suffix_spec:
  "suffix' \<le> find_suffix seen c suffix' \<and>
   suffixed c (find_suffix seen c suffix') |\<notin>| seen \<and>
   (\<forall>j. suffix' \<le> j \<and> j < find_suffix seen c suffix' \<longrightarrow> suffixed c j |\<in>| seen)"
proof (induction seen c suffix' rule: find_suffix.induct)
  case (1 seen c k)
  show ?case
  proof (cases "suffixed c k |\<in>| seen")
    case True
    then have eq: "find_suffix seen c k = find_suffix seen c (k + 1)"
      by (simp add: find_suffix.simps[of seen c k])
    from 1[OF True] have ih: "k + 1 \<le> find_suffix seen c (k + 1)"
      "suffixed c (find_suffix seen c (k + 1)) |\<notin>| seen"
      "\<forall>j. k + 1 \<le> j \<and> j < find_suffix seen c (k + 1) \<longrightarrow> suffixed c j |\<in>| seen"
      by simp_all
    have "\<forall>j. k \<le> j \<and> j < find_suffix seen c (k + 1) \<longrightarrow> suffixed c j |\<in>| seen"
    proof (intro allI impI)
      fix j assume j: "k \<le> j \<and> j < find_suffix seen c (k + 1)"
      show "suffixed c j |\<in>| seen"
      proof (cases "j = k")
        case True with \<open>suffixed c k |\<in>| seen\<close> show ?thesis by simp
      next
        case False with j ih(3) show ?thesis by simp
      qed
    qed
    with ih eq show ?thesis by simp
  next
    case False
    then have "find_suffix seen c k = k" by (simp add: find_suffix.simps[of seen c k])
    with False show ?thesis by auto
  qed
qed

definition pick_name :: "string fset \<Rightarrow> string \<Rightarrow> string" where
  "pick_name seen c = (if c |\<in>| seen then suffixed c (find_suffix seen c 1) else c)"

lemma dedup_step_pick:
  "dedup_step (out, seen) col =
     (out @ [pick_name seen (clean_column col)], finsert (pick_name seen (clean_column col)) seen)"
  by (simp add: dedup_step_def pick_name_def Let_def)

lemma pick_name_fresh: "pick_name seen c |\<notin>| seen"
  using find_suffix_spec[of 1 seen c] by (simp add: pick_name_def)

lemma foldl_dedup_seen:
  "snd (foldl dedup_step ([], {||}) cols) = fset_of_list (fst (foldl dedup_step ([], {||}) cols))"
proof (induction cols rule: rev_induct)
  case Nil show ?case by simp
next
  case (snoc x xs)
  obtain out seen where st: "foldl dedup_step ([], {||}) xs = (out, seen)" by (cases "foldl dedup_step ([], {||}) xs")
  with snoc have "seen = fset_of_list out" by simp
  with st show ?case by (simp add: dedup_step_pick)
qed

lemma clean_columns_Nil: "clean_columns [] = []"
  by (simp add: clean_columns_def)

lemma clean_columns_snoc:
  "clean_columns (xs @ [x]) =
     clean_columns xs @ [pick_name (fset_of_list (clean_columns xs)) (clean_column x)]"
proof -
  obtain out seen where st: "foldl dedup_step ([], {||}) xs = (out, seen)" by (cases "foldl dedup_step ([], {||}) xs")
  with foldl_dedup_seen[of xs] have "seen = fset_of_list out" by simp
  with st show ?thesis by (simp add: clean_columns_def dedup_step_pick)
qed

lemma length_clean_columns: "length (clean_columns cols) = length cols"
  by (induction cols rule: rev_induct) (simp_all add: clean_columns_Nil clean_columns_snoc)

lemma distinct_clean_columns: "distinct (clean_columns cols)"
proof (induction cols rule: rev_induct)
  case Nil show ?case by (simp add: clean_columns_Nil)
next
  case (snoc x xs)
  have "pick_name (fset_of_list (clean_columns xs)) (clean_column x) \<notin> set (clean_columns xs)"
    using pick_name_fresh[of "fset_of_list (clean_columns xs)" "clean_column x"]
    by (simp add: fset_of_list.rep_eq)
  with snoc show ?case by (simp add: clean_columns_snoc)
qed

lemma take_clean_columns: "take i (clean_columns cols) = clean_columns (take i cols)"
proof (induction cols rule: rev_induct)
  case Nil show ?case by (simp add: clean_columns_Nil)
next
  case (snoc x xs)
  show ?case
  proof (cases "i \<le> length xs")
    case True
    with snoc show ?thesis by (simp add: clean_columns_snoc length_clean_columns)
  next
    case False
    then show ?thesis by (simp add: clean_columns_snoc length_clean_columns)
  qed
qed

lemma nth_clean_columns:
  assumes "i < length cols"
  shows "clean_columns cols ! i =
     pick_name (fset_of_list (take i (clean_columns cols))) (clean_column (cols ! i))"
proof -
  from assms have t: "take (Suc i) cols = take i cols @ [cols ! i]"
    by (simp add: take_Suc_conv_app_nth)
  have "clean_columns cols ! i = take (Suc i) (clean_columns cols) ! i" by simp
  also have "\<dots> = clean_columns (take i cols @ [cols ! i]) ! i"
    by (simp only: take_clean_columns t)
  also have "\<dots> = pick_name (fset_of_list (clean_columns (take i cols))) (clean_column (cols ! i))"
    using assms by (simp add: clean_columns_snoc nth_append length_clean_columns)
  finally show ?thesis by (simp add: take_clean_columns)
qed

lemma pick_name_cases:
  "(c \<notin> set prev \<longrightarrow> pick_name (fset_of_list prev) c = c) \<and>
   (c \<in> set prev \<longrightarrow> (\<exists>k\<ge>1. pick_name (fset_of_list prev) c = suffixed c k \<and> suffixed c k \<notin> set prev \<and>
       (\<forall>j. 1 \<le> j \<and> j < k \<longrightarrow> suffixed c j \<in> set prev)))"
  using find_suffix_spec[of 1 "fset_of_list prev" c]
  by (auto simp: pick_name_def fset_of_list.rep_eq)

section \<open>Further facts about the cleaned names\<close>

lemma ascii_alnum_word: "isalnum c \<Longrightarrow> cp c < 128 \<Longrightarrow> is_ascii_word c"
  by (auto simp: isalnum_def is_ascii_word_def)

lemma underscore_ascii_word: "is_ascii_word underscore"
  by code_simp

lemma clean_column_chars:
  "set (clean_column s) \<subseteq> {c \<in> set s. isalnum c} \<union> {underscore}"
proof
  fix c assume c: "c \<in> set (clean_column s)"
  show "c \<in> {c \<in> set s. isalnum c} \<union> {underscore}"
  proof (cases "c = underscore")
    case True then show ?thesis by simp
  next
    case False
    with c have "c \<in> set (filter (\<lambda>c. c \<noteq> underscore) (clean_column s))" by simp
    then have "c \<in> set (filter isalnum s)" by (simp only: clean_column_keeps_alnum)
    then show ?thesis by simp
  qed
qed

lemma only_underscores_empty:
  assumes "filter (\<lambda>c. c \<noteq> underscore) xs = []" "\<not> prefix [underscore] xs"
  shows "xs = []"
proof (cases xs)
  case Nil then show ?thesis .
next
  case (Cons a as)
  with assms(1) have "a = underscore" by (auto split: if_splits)
  with Cons assms(2) show ?thesis by simp
qed

lemma clean_column_no_prefix: "\<not> prefix [underscore] (clean_column s)"
  using base_no_prefix[of s] kw_nonempty[of "cleaned_base s"]
  by (cases "cleaned_base s") (auto simp: clean_column_base)

lemma clean_columns_single: "clean_columns [s] = [clean_column s]"
  using clean_columns_snoc[of "[]" s] by (simp add: clean_columns_Nil pick_name_def)

lemma column_with_type_empty: "column_with_type [] = [dquote, dquote] @ '' TEXT''"
  by code_simp

section \<open>Properties of the repair pass and of the value cleaning\<close>

lemma cleaned_text_positions:
  "cleaned_text s =
     concat (map (\<lambda>i. if s ! i = backslash \<and> \<not> followed_by_escape (drop (Suc i) s)
                        then [backslash, backslash] else [s ! i]) [0..<length s])"
proof (induction s)
  case Nil show ?case by simp
next
  case (Cons c cs)
  have "[0..<length (c # cs)] = 0 # map Suc [0..<length cs]"
    by (simp add: upt_conv_Cons map_Suc_upt del: upt_Suc)
  then show ?case using Cons by (simp add: comp_def del: upt_Suc cong: if_cong)
qed

lemma clean_value_examples:
  "clean_value L PNone ''numeric'' = Inr PNone"
  "clean_value L (PStr ''N/A'') ''text'' = Inr PNone"
  "clean_value L (PStr ''12.50'') ''numeric'' = Inr (PFloat (Finite 12.5))"
  "clean_value L (PStr ''abc'') ''integer'' = Inr PNone"
  by code_simp+

lemma clean_value_when_isna_returns:
  assumes "isna_truth v = Inr na"
  shows "clean_value L v t = Inr
     (if na \<or> is_sentinel v then PNone
      else if t = ''numeric'' then (case py_float v of Some f \<Rightarrow> PFloat f | None \<Rightarrow> PNone)
      else if t = ''integer'' then
        (case py_float v of Some f \<Rightarrow> (case py_int f of Some i \<Rightarrow> PInt i | None \<Rightarrow> PNone)
         | None \<Rightarrow> PNone)
      else if t = ''date'' then (case to_datetime_date L v of Some d \<Rightarrow> d | None \<Rightarrow> PNone)
      else PStr (strip (py_str L v)))"
  using assms
  by (auto simp: clean_value_def is_sentinel_def split: option.splits pyval.splits)

lemma isna_truth_scalar: "(\<And>xs. v \<noteq> PList xs) \<Longrightarrow> isna_truth v = Inr (checknull v)"
  by (cases v) (auto simp: isna_truth_def)

section \<open>Properties of the insert loop\<close>

lemma insert_rows_isolates_failures:
  assumes "\<forall>row \<in> set rows. \<exists>cr. cleaned_row L cols row = Inr cr"
  shows "insert_rows db L cols rows st =
     (st\<lparr>printed := printed st @ row_errors db (calls st) (executes L cols rows),
         calls := calls st @ executes L cols rows\<rparr>, None)"
  using assms
proof (induction rows arbitrary: st)
  case Nil
  show ?case by (simp add: executes_def)
next
  case (Cons row rows)
  from Cons.prems obtain cr where cr: "cleaned_row L cols row = Inr cr" by auto
  from Cons.prems have rest: "\<forall>row \<in> set rows. \<exists>cr. cleaned_row L cols row = Inr cr" by simp
  note ih = Cons.IH[OF rest]
  show ?case
  proof (cases "db (calls st) (Execute (insert_query cols) cr)")
    case None
    with cr show ?thesis by (simp add: ih executes_def Let_def)
  next
    case (Some msg)
    with cr show ?thesis by (simp add: ih executes_def Let_def)
  qed
qed

lemma load_rows_commits_and_closes:
  assumes "\<forall>row \<in> set rows. \<exists>cr. cleaned_row L cols row = Inr cr"
    and "\<forall>h. db h Commit = None \<and> db h Cursor_close = None \<and> db h Conn_close = None"
  shows "load_rows db L cols rows st =
     (st\<lparr>printed := printed st @ row_errors db (calls st) (executes L cols rows) @ [Data_inserted],
         calls := calls st @ executes L cols rows @ [Commit, Cursor_close, Conn_close]\<rparr>, None)"
  using assms(2)
  by (simp add: load_rows_def and_then_def insert_rows_isolates_failures[OF assms(1)] db_do_def print_def)

lemma cleaned_row_returns:
  assumes "\<forall>v \<in> set row. \<exists>na. isna_truth v = Inr na"
  shows "\<exists>cr. cleaned_row L cols row = Inr cr"
  using assms
proof (induction L cols row rule: cleaned_row.induct)
  case (1 L col cols val vals)
  then obtain na where na: "isna_truth val = Inr na" by auto
  from clean_value_when_isna_returns[OF na] obtain v where v: "clean_value L val (expected_type_of col) = Inr v"
    by blast
  from 1 v obtain vs where "cleaned_row L cols vals = Inr vs" by auto
  with v show ?case by simp
qed simp_all

lemma insert_loop_example:
  "load_rows (\<lambda>h c. if c = Execute (insert_query [''Amount'']) [PNone] then Some ''null value'' else None)
     L [''Amount''] [[PStr ''abc''], [PStr ''7'']] \<lparr>printed = [], calls = []\<rparr> =
   (\<lparr>printed = [Row_error [PNone] ''null value'', Data_inserted],
     calls = [Execute (insert_query [''Amount'']) [PNone],
              Execute (insert_query [''Amount'']) [PFloat (Finite 7)],
              Commit, Cursor_close, Conn_close]\<rparr>, None)"
proof -
  have "cleaned_row L [''Amount''] [PStr ''abc''] = Inr [PNone]" by code_simp
  moreover have "cleaned_row L [''Amount''] [PStr ''7''] = Inr [PFloat (Finite 7)]" by code_simp
  ultimately show ?thesis
    by (simp add: load_rows_def and_then_def db_do_def print_def Let_def del: cleaned_row.simps)
qed

section \<open>The worked example\<close>

lemma sample_decoded: "decode_json json_loads json_loads sample_text = ([], Inr (Strict_parse, sample_data))"
  by code_simp

lemma sample_fields:
  "columns_with_types [''BillDate'', ''Qty'', ''GSTAmount''] =
     [[dquote] @ ''BillDate'' @ [dquote] @ '' DATE'', [dquote] @ ''Qty'' @ [dquote] @ '' INTEGER'',
      [dquote] @ ''GSTAmount'' @ [dquote] @ '' NUMERIC(10,2)'']"
  by code_simp

lemma sample_expected_types:
  "expected_type_of ''BillDate'' = ''date''" "expected_type_of ''Qty'' = ''integer''"
  "expected_type_of ''GSTAmount'' = ''numeric''"
  by code_simp+

lemma sample_cells:
  "clean_value L (PStr ''3'') ''integer'' = Inr (PInt 3)"
  "clean_value L (PStr ''45.00'') ''numeric'' = Inr (PFloat (Finite 45))"
  by code_simp+

lemma sample_index: "index_of ''BillDate'' [''BillDate'', ''Qty'', ''GSTAmount''] = 0"
  by code_simp


section \<open>The type inference\<close>

text \<open>
  Claim C1. \<open>infer_pg_type\<close> depends on the column name alone (it is a function of the name
  and of nothing else), and it is the case-insensitive substring match of the
  specification, the first matching rule winning, in the order: contains "date" and the
  lowered name is not "billmonth" gives DATE; contains "month" gives TEXT; contains "qty" or
  "points" gives INTEGER; contains one of "amount", "price", "gst", "disc", "charges",
  "percent", "volume" gives NUMERIC(10,2); otherwise TEXT. In particular "GSTAmount" gives
  NUMERIC(10,2), "BillDate" gives DATE, "BillMonth" gives TEXT, "Qty" gives INTEGER and
  "Description" gives TEXT.
\<close>

theorem infer_pg_type_first_match:
  "infer_pg_type name = infer_pg_type_spec name \<and>
   infer_pg_type ''GSTAmount'' = ''NUMERIC(10,2)'' \<and>
   infer_pg_type ''BillDate'' = ''DATE'' \<and>
   infer_pg_type ''BillMonth'' = ''TEXT'' \<and>
   infer_pg_type ''Qty'' = ''INTEGER'' \<and>
   infer_pg_type ''Description'' = ''TEXT''"
proof -
  have general: "infer_pg_type name = infer_pg_type_spec name"
    by (simp add: infer_pg_type_def infer_pg_type_spec_def Let_def contains_lower lower_lit)
  have "infer_pg_type ''GSTAmount'' = ''NUMERIC(10,2)''" by code_simp
  moreover have "infer_pg_type ''BillDate'' = ''DATE''" by code_simp
  moreover have "infer_pg_type ''BillMonth'' = ''TEXT''" by code_simp
  moreover have "infer_pg_type ''Qty'' = ''INTEGER''" by code_simp
  moreover have "infer_pg_type ''Description'' = ''TEXT''" by code_simp
  ultimately show ?thesis using general by simp
qed

text \<open>
  The order matters: "Update_Month" contains "date" (in "update") and "month", and the
  first rule wins.
\<close>

theorem infer_pg_type_first_match_witness:
  "infer_pg_type_spec ''Update_Month'' = ''DATE'' \<and> infer_pg_type_spec ''Disc_Percent'' = ''NUMERIC(10,2)''"
proof -
  have "infer_pg_type ''Update_Month'' = ''DATE''" by code_simp
  moreover have "infer_pg_type ''Disc_Percent'' = ''NUMERIC(10,2)''" by code_simp
  ultimately show ?thesis
    using infer_pg_type_first_match[of "''Update_Month''"] infer_pg_type_first_match[of "''Disc_Percent''"]
    by simp
qed

section \<open>The cleaned column names\<close>

text \<open>
  The specification states that the output of \<open>clean_column\<close> has no character outside
  \<open>[A-Za-z0-9_]\<close> and no trailing underscore. Both fail: a name that is a reserved keyword
  gets an underscore appended, and \<open>\<bsol>w\<close> keeps the letters and digits beyond ASCII
  (E9 is the letter e with an acute accent).
\<close>

theorem clean_column_shape_counterexample:
  "clean_column ''order'' = ''order_'' \<and> suffix [underscore] (clean_column ''order'') \<and>
   clean_column [CHR 0xE9] = [CHR 0xE9] \<and> \<not> is_ascii_word (CHR 0xE9)"
proof -
  have a: "clean_column ''order'' = ''order_''" by code_simp
  have b: "clean_column [CHR 0xE9] = [CHR 0xE9]" by code_simp
  have c: "\<not> is_ascii_word (CHR 0xE9)" by code_simp
  have "suffix [underscore] ''order_''" by (simp add: suffix_def underscore_def)
  with a b c show ?thesis by simp
qed

text \<open>
  Claim C2, as amended. For every input string, every character of the output of
  \<open>clean_column\<close> is an underscore or an alphanumeric character of the input (so the output
  is within \<open>[A-Za-z0-9_]\<close> when the input is ASCII); the output has no leading underscore
  and no run of two or more underscores; and it ends with an underscore exactly when it is
  a name that is a reserved keyword up to case, followed by the underscore that the keyword
  check appends.
\<close>

theorem clean_column_shape:
  "set (clean_column s) \<subseteq> {c \<in> set s. isalnum c} \<union> {underscore} \<and>
   (list_all (\<lambda>c. cp c < 128) s \<longrightarrow> list_all is_ascii_word (clean_column s)) \<and>
   \<not> prefix [underscore] (clean_column s) \<and>
   \<not> sublist [underscore, underscore] (clean_column s) \<and>
   (suffix [underscore] (clean_column s) \<longleftrightarrow>
      (\<exists>b. clean_column s = b @ [underscore] \<and> lower b \<in> postgres_reserved_keywords))"
proof (intro conjI)
  show chars: "set (clean_column s) \<subseteq> {c \<in> set s. isalnum c} \<union> {underscore}"
    by (rule clean_column_chars)
  show "list_all (\<lambda>c. cp c < 128) s \<longrightarrow> list_all is_ascii_word (clean_column s)"
  proof
    assume a: "list_all (\<lambda>c. cp c < 128) s"
    show "list_all is_ascii_word (clean_column s)"
      unfolding list_all_iff
    proof
      fix c assume "c \<in> set (clean_column s)"
      with chars have "(c \<in> set s \<and> isalnum c) \<or> c = underscore" by auto
      then show "is_ascii_word c"
        using a ascii_alnum_word underscore_ascii_word by (auto simp: list_all_iff)
    qed
  qed
  show "\<not> prefix [underscore] (clean_column s)"
    using base_no_prefix[of s] kw_nonempty[of "cleaned_base s"]
    by (cases "cleaned_base s") (auto simp: clean_column_base)
  show "\<not> sublist [underscore, underscore] (clean_column s)"
    using base_no_double[of s] base_no_suffix[of s] no_double_snoc
    by (simp add: clean_column_base)
  show "suffix [underscore] (clean_column s) \<longleftrightarrow>
      (\<exists>b. clean_column s = b @ [underscore] \<and> lower b \<in> postgres_reserved_keywords)"
  proof (cases "lower (cleaned_base s) \<in> postgres_reserved_keywords")
    case True
    then show ?thesis by (auto simp: clean_column_base)
  next
    case False
    then have "clean_column s = cleaned_base s" by (simp add: clean_column_base)
    with base_no_suffix[of s] show ?thesis by (auto simp: suffix_def)
  qed
qed

theorem clean_column_shape_witness:
  "list_all is_ascii_word (clean_column ''Order'') \<and> clean_column ''Order'' = ''Order_'' \<and>
   suffix [underscore] (clean_column ''Order'')"
proof -
  have a: "list_all (\<lambda>c. cp c < 128) ''Order''" by code_simp
  have b: "clean_column ''Order'' = ''Order_''" by code_simp
  have c: "lower ''Order'' \<in> postgres_reserved_keywords" by code_simp
  from b c have "\<exists>b. clean_column ''Order'' = b @ [underscore] \<and> lower b \<in> postgres_reserved_keywords"
    by (simp add: underscore_def)
  with a b show ?thesis using clean_column_shape[of "''Order''"] by blast
qed

text \<open>
  Claim C9. \<open>clean_column\<close> keeps the letter case of what it keeps: the characters of the
  output other than underscores are exactly the alphanumeric characters of the input, each
  as it was and in the same order. The lowered name is used for the keyword comparison
  only: "GROUP" becomes "GROUP_", not "group_".
\<close>

theorem clean_column_preserves_case:
  "filter (\<lambda>c. c \<noteq> underscore) (clean_column s) = filter isalnum s \<and>
   clean_column ''GROUP'' = ''GROUP_'' \<and> clean_column ''Bill Date'' = ''Bill_Date''"
proof -
  have "clean_column ''GROUP'' = ''GROUP_''" by code_simp
  moreover have "clean_column ''Bill Date'' = ''Bill_Date''" by code_simp
  ultimately show ?thesis by (simp add: clean_column_keeps_alnum)
qed

theorem clean_column_preserves_case_witness:
  "filter (\<lambda>c. c \<noteq> underscore) (clean_column ''GST Amount (Rs)'') = ''GSTAmountRs''"
proof -
  have "filter isalnum ''GST Amount (Rs)'' = ''GSTAmountRs''" by code_simp
  then show ?thesis using clean_column_preserves_case[of "''GST Amount (Rs)''"] by simp
qed

text \<open>
  Claim C10. For every input string with no word character at all (such as "!!!"),
  \<open>clean_column\<close> returns the empty string; the deduplication loop passes it on as it is and
  the schema gets a field with the empty identifier.
\<close>

theorem clean_column_no_word_chars:
  assumes "\<forall>c \<in> set s. \<not> is_word c"
  shows "clean_column s = [] \<and> clean_columns [s] = [[]] \<and>
         columns_with_types (clean_columns [s]) = [[dquote, dquote] @ '' TEXT'']"
proof -
  from assms have "filter isalnum s = []" by (auto simp: is_word_def filter_empty_conv)
  then have "filter (\<lambda>c. c \<noteq> underscore) (clean_column s) = []"
    by (simp add: clean_column_keeps_alnum)
  then have e: "clean_column s = []"
    using clean_column_no_prefix only_underscores_empty by blast
  then show ?thesis
    by (simp add: clean_columns_single columns_with_types_def column_with_type_empty)
qed

theorem clean_column_no_word_chars_witness:
  "\<not> list_ex is_word ''!!!'' \<and> clean_column ''!!!'' = [] \<and> clean_columns [''!!!''] = [[]] \<and>
   columns_with_types (clean_columns [''!!!'']) = [[dquote, dquote] @ '' TEXT'']"
proof -
  have h: "\<forall>c \<in> set ''!!!''. \<not> is_word c" by code_simp
  then have "\<not> list_ex is_word ''!!!''" by (simp only: list_ex_iff) blast
  moreover note clean_column_no_word_chars[OF h]
  ultimately show ?thesis by blast
qed

section \<open>The deduplication loop\<close>

text \<open>
  Claim C4. For every sequence of column names the loop gives a sequence of the same
  length, with pairwise distinct elements, whose element at each index comes from the
  column at that index: it is the cleaned name when no earlier output is that name, and
  otherwise the cleaned name with the suffix \<open>_k\<close> for the least \<open>k\<close> from 1 on that no
  earlier output has taken.
\<close>

theorem clean_columns_distinct:
  "length (clean_columns cols) = length cols \<and> distinct (clean_columns cols) \<and>
   (\<forall>i < length cols.
      (clean_column (cols ! i) \<notin> set (take i (clean_columns cols)) \<longrightarrow>
         clean_columns cols ! i = clean_column (cols ! i)) \<and>
      (clean_column (cols ! i) \<in> set (take i (clean_columns cols)) \<longrightarrow>
         (\<exists>k\<ge>1. clean_columns cols ! i = suffixed (clean_column (cols ! i)) k \<and>
            suffixed (clean_column (cols ! i)) k \<notin> set (take i (clean_columns cols)) \<and>
            (\<forall>j. 1 \<le> j \<and> j < k \<longrightarrow>
               suffixed (clean_column (cols ! i)) j \<in> set (take i (clean_columns cols))))))"
  using pick_name_cases[of "clean_column (cols ! i)" "take i (clean_columns cols)" for i]
  by (simp add: length_clean_columns distinct_clean_columns nth_clean_columns)

theorem clean_columns_distinct_witness:
  "clean_columns [''a b'', ''a_b_1'', ''a!b'', ''a?b''] = [''a_b'', ''a_b_1'', ''a_b_2'', ''a_b_3''] \<and>
   length (clean_columns [''a b'', ''a_b_1'', ''a!b'', ''a?b'']) = 4 \<and>
   distinct (clean_columns [''a b'', ''a_b_1'', ''a!b'', ''a?b''])"
proof -
  have "clean_columns [''a b'', ''a_b_1'', ''a!b'', ''a?b''] = [''a_b'', ''a_b_1'', ''a_b_2'', ''a_b_3'']"
    by code_simp
  then show ?thesis
    using clean_columns_distinct[of "[''a b'', ''a_b_1'', ''a!b'', ''a?b'']"] by simp
qed

section \<open>The decoder\<close>

text \<open>
  Claim C5. For every text that the strict parse accepts, the decoder returns the value of
  the strict parse, prints nothing and does not consult the second parser: the repair
  branch is not taken. And the text \<open>"C:\<bsol>Users"\<close>, with a backslash that starts no legal
  escape, is refused by the strict parse, becomes \<open>"C:\<bsol>\<bsol>Users"\<close> in the repair pass, and
  the second parse then succeeds with the string \<open>C:\<bsol>Users\<close>.
\<close>

theorem decode_json_round_trip:
  "(response_json t = Inr v \<longrightarrow> decode_json response_json loads t = ([], Inr (Strict_parse, v))) \<and>
   json_loads stray_example = Inl JSONDecodeError \<and>
   cleaned_text stray_example = [dquote] @ ''C:'' @ [backslash, backslash] @ ''Users'' @ [dquote] \<and>
   decode_json json_loads json_loads stray_example =
     ([], Inr (Repaired_parse, PStr (''C:'' @ [backslash] @ ''Users'')))"
proof (intro conjI impI)
  assume "response_json t = Inr v"
  then show "decode_json response_json loads t = ([], Inr (Strict_parse, v))"
    by (simp add: decode_json_def)
next
  show "json_loads stray_example = Inl JSONDecodeError" by code_simp
next
  show "cleaned_text stray_example = [dquote] @ ''C:'' @ [backslash, backslash] @ ''Users'' @ [dquote]"
    by code_simp
next
  show "decode_json json_loads json_loads stray_example =
     ([], Inr (Repaired_parse, PStr (''C:'' @ [backslash] @ ''Users'')))"
    by code_simp
qed

theorem decode_json_round_trip_witness:
  "json_loads ''[1, 2]'' = Inr (PList [PInt 1, PInt 2]) \<and>
   decode_json json_loads json_loads ''[1, 2]'' = ([], Inr (Strict_parse, PList [PInt 1, PInt 2]))"
proof -
  have h: "json_loads ''[1, 2]'' = Inr (PList [PInt 1, PInt 2])" by code_simp
  with decode_json_round_trip[of json_loads "''[1, 2]''" "PList [PInt 1, PInt 2]" json_loads]
  show ?thesis by blast
qed

text \<open>
  Claim C6. The specification and the comment of the script say that the repair pass
  escapes only the backslashes that are not part of a legitimate escape sequence and leaves
  the legitimate ones untouched. The regular expression looks at one following character
  only, so it also doubles the second backslash of an escaped backslash whenever the
  character after it is none of the nine: in \<open>mixed_example\<close> the legitimate \<open>\<bsol>\<bsol>\<close> before
  \<open>Users\<close> becomes three backslashes, the text that was invalid only for its second string is
  still invalid, and the decoder fails, although doubling the stray backslash alone gives a
  text that parses.
\<close>

theorem cleaned_text_breaks_escaped_backslash:
  "json_loads mixed_example = Inl JSONDecodeError \<and>
   cleaned_text mixed_example =
     ''['' @ [dquote] @ ''C:'' @ [backslash, backslash, backslash] @ ''Users'' @ [dquote] @ '', '' @
     [dquote] @ ''D:'' @ [backslash, backslash] @ ''Temp'' @ [dquote] @ '']'' \<and>
   json_loads (cleaned_text mixed_example) = Inl JSONDecodeError \<and>
   json_loads (''['' @ [dquote] @ ''C:'' @ [backslash, backslash] @ ''Users'' @ [dquote] @ '', '' @
     [dquote] @ ''D:'' @ [backslash, backslash] @ ''Temp'' @ [dquote] @ '']'') =
     Inr (PList [PStr (''C:'' @ [backslash] @ ''Users''), PStr (''D:'' @ [backslash] @ ''Temp'')]) \<and>
   snd (decode_json json_loads json_loads mixed_example) = Inl JSONDecodeError"
proof (intro conjI)
  show "json_loads mixed_example = Inl JSONDecodeError" by code_simp
  show "cleaned_text mixed_example =
     ''['' @ [dquote] @ ''C:'' @ [backslash, backslash, backslash] @ ''Users'' @ [dquote] @ '', '' @
     [dquote] @ ''D:'' @ [backslash, backslash] @ ''Temp'' @ [dquote] @ '']''" by code_simp
  show "json_loads (cleaned_text mixed_example) = Inl JSONDecodeError" by code_simp
  show "json_loads (''['' @ [dquote] @ ''C:'' @ [backslash, backslash] @ ''Users'' @ [dquote] @ '', '' @
     [dquote] @ ''D:'' @ [backslash, backslash] @ ''Temp'' @ [dquote] @ '']'') =
     Inr (PList [PStr (''C:'' @ [backslash] @ ''Users''), PStr (''D:'' @ [backslash] @ ''Temp'')])"
    by code_simp
  show "snd (decode_json json_loads json_loads mixed_example) = Inl JSONDecodeError" by code_simp
qed

section \<open>The value cleaning\<close>

text \<open>
  Claim C3. The specification gives a result of \<open>clean_value\<close> for every value: NULL or the
  converted value. For a cell that is a list of two elements (the normalizer keeps lists as
  cells) the truth value of \<open>pd.isna\<close> raises a \<open>ValueError\<close>, outside every \<open>try\<close>, whatever
  the expected type is.
\<close>

theorem clean_value_raises_on_list:
  "clean_value L (PList [PInt 1, PInt 2]) ''numeric'' = Inl ValueError \<and>
   clean_value L (PList [PInt 1, PInt 2]) ''integer'' = Inl ValueError \<and>
   clean_value L (PList [PInt 1, PInt 2]) ''date'' = Inl ValueError \<and>
   clean_value L (PList [PInt 1, PInt 2]) ''text'' = Inl ValueError"
proof -
  have "isna_truth (PList [PInt 1, PInt 2]) = Inl ValueError" by code_simp
  then show ?thesis by (simp add: clean_value_def)
qed

section \<open>The insert loop\<close>

text \<open>
  Claim C7. The specification says that no failure of a row aborts the run and that one
  commit follows all inserts. With a first row whose cell is a list of two elements the
  loop raises the \<open>ValueError\<close> of \<open>clean_value\<close> before any call on the connection: the
  second row is not processed, nothing is committed and the connection is not closed.
\<close>

theorem load_rows_aborts_on_list:
  "load_rows db L [''Amount''] [[PList [PInt 1, PInt 2]], [PStr ''7'']] st = (st, Some ValueError)"
proof -
  have "isna_truth (PList [PInt 1, PInt 2]) = Inl ValueError" by code_simp
  then have "cleaned_row L [''Amount''] [PList [PInt 1, PInt 2]] = Inl ValueError"
    by (simp add: clean_value_def)
  then show ?thesis by (simp add: load_rows_def and_then_def)
qed

section \<open>The end-to-end scenario\<close>

text \<open>
  The specification names the columns of the scenario \<open>billdate\<close>, \<open>qty\<close> and \<open>gstamount\<close>.
  The cleaned names keep their case.
\<close>

theorem sample_columns_keep_case:
  "clean_columns [''BillDate'', ''Qty'', ''GSTAmount''] = [''BillDate'', ''Qty'', ''GSTAmount''] \<and>
   clean_columns [''BillDate'', ''Qty'', ''GSTAmount''] \<noteq> [''billdate'', ''qty'', ''gstamount'']"
proof -
  have "clean_columns [''BillDate'', ''Qty'', ''GSTAmount''] = [''BillDate'', ''Qty'', ''GSTAmount'']"
    by code_simp
  then show ?thesis by simp
qed

text \<open>
  Claim C8, as amended. Given the response of the scenario, a library that normalises its
  document to the columns BillDate, Qty, GSTAmount with the one row of the three strings
  and that reads "2024-01-05" as the date 2024-01-05, and a database that raises nothing,
  the run creates the table \<open>sales_data\<close> (if it is absent) with the fields "BillDate" DATE,
  "Qty" INTEGER and "GSTAmount" NUMERIC(10,2), executes exactly one INSERT, with the date
  2024-01-05, the integer 3 and the float 45.0, commits, closes, and raises nothing.
\<close>

theorem sample_run:
  assumes norm: "json_normalize L sample_data =
       Inr ([''BillDate'', ''Qty'', ''GSTAmount''], [[PStr ''2024-01-05'', PStr ''3'', PStr ''45.00'']])"
    and coerce: "to_datetime_coerce L [PStr ''2024-01-05''] = Inr [PDate (Date 2024 1 5)]"
    and date: "to_datetime_date L (PDate (Date 2024 1 5)) = Some (PDate (Date 2024 1 5))"
  shows "run json_loads json_loads L (\<lambda>h c. None) sample_text =
     (\<lparr>printed = [Cleaned_columns [''BillDate'', ''Qty'', ''GSTAmount''],
                 Table_created ''sales_data'', Data_inserted],
       calls = [Connect, Cursor,
                Execute (Create_table_if_not_exists ''sales_data''
                  [[dquote] @ ''BillDate'' @ [dquote] @ '' DATE'',
                   [dquote] @ ''Qty'' @ [dquote] @ '' INTEGER'',
                   [dquote] @ ''GSTAmount'' @ [dquote] @ '' NUMERIC(10,2)'']) [],
                Commit,
                Execute (Insert_into ''sales_data'' [''BillDate'', ''Qty'', ''GSTAmount''] 3)
                  [PDate (Date 2024 1 5), PInt 3, PFloat (Finite 45)],
                Commit, Cursor_close, Conn_close]\<rparr>, None)"
proof -
  have cols: "clean_columns [''BillDate'', ''Qty'', ''GSTAmount''] = [''BillDate'', ''Qty'', ''GSTAmount'']"
    by code_simp
  have bill: "clean_bill_date L [''BillDate'', ''Qty'', ''GSTAmount'']
        [[PStr ''2024-01-05'', PStr ''3'', PStr ''45.00'']] =
      Inr [[PDate (Date 2024 1 5), PStr ''3'', PStr ''45.00'']]"
    by (simp add: clean_bill_date_def sample_index coerce)
  have d: "clean_value L (PDate (Date 2024 1 5)) ''date'' = Inr (PDate (Date 2024 1 5))"
    by (simp add: clean_value_def isna_truth_def checknull_def date)
  have row: "cleaned_row L [''BillDate'', ''Qty'', ''GSTAmount''] [PDate (Date 2024 1 5), PStr ''3'', PStr ''45.00''] =
      Inr [PDate (Date 2024 1 5), PInt 3, PFloat (Finite 45)]"
    by (simp add: sample_expected_types sample_cells d)
  have ins: "insert_rows (\<lambda>h c. None) L [''BillDate'', ''Qty'', ''GSTAmount'']
        [[PDate (Date 2024 1 5), PStr ''3'', PStr ''45.00'']] st =
      (st\<lparr>calls := calls st @
          [Execute (Insert_into ''sales_data'' [''BillDate'', ''Qty'', ''GSTAmount''] 3)
             [PDate (Date 2024 1 5), PInt 3, PFloat (Finite 45)]]\<rparr>, None)" for st
    by (simp add: row Let_def insert_query_def table_name_def del: cleaned_row.simps)
  have load: "load_rows (\<lambda>h c. None) L [''BillDate'', ''Qty'', ''GSTAmount'']
        [[PDate (Date 2024 1 5), PStr ''3'', PStr ''45.00'']] st =
      (st\<lparr>printed := printed st @ [Data_inserted],
          calls := calls st @
          [Execute (Insert_into ''sales_data'' [''BillDate'', ''Qty'', ''GSTAmount''] 3)
             [PDate (Date 2024 1 5), PInt 3, PFloat (Finite 45)],
           Commit, Cursor_close, Conn_close]\<rparr>, None)" for st
    by (simp add: load_rows_def and_then_def ins db_do_def print_def del: insert_rows.simps)
  show ?thesis
    by (simp add: run_def sample_decoded run_from_data_def norm cols bill load and_then_def print_def
        db_do_def create_table_query_def sample_fields table_name_def Let_def)
qed

theorem sample_run_witness:
  "fst (run json_loads json_loads sample_library (\<lambda>h c. None) sample_text) =
     \<lparr>printed = [Cleaned_columns [''BillDate'', ''Qty'', ''GSTAmount''],
                 Table_created ''sales_data'', Data_inserted],
       calls = [Connect, Cursor,
                Execute (Create_table_if_not_exists ''sales_data''
                  [[dquote] @ ''BillDate'' @ [dquote] @ '' DATE'',
                   [dquote] @ ''Qty'' @ [dquote] @ '' INTEGER'',
                   [dquote] @ ''GSTAmount'' @ [dquote] @ '' NUMERIC(10,2)'']) [],
                Commit,
                Execute (Insert_into ''sales_data'' [''BillDate'', ''Qty'', ''GSTAmount''] 3)
                  [PDate (Date 2024 1 5), PInt 3, PFloat (Finite 45)],
                Commit, Cursor_close, Conn_close]\<rparr>"
proof -
  have a: "json_normalize sample_library sample_data =
       Inr ([''BillDate'', ''Qty'', ''GSTAmount''], [[PStr ''2024-01-05'', PStr ''3'', PStr ''45.00'']])"
    by (simp add: sample_library_def sample_data_def)
  have b: "to_datetime_coerce sample_library [PStr ''2024-01-05''] = Inr [PDate (Date 2024 1 5)]"
    by (simp add: sample_library_def)
  have c: "to_datetime_date sample_library (PDate (Date 2024 1 5)) = Some (PDate (Date 2024 1 5))"
    by (simp add: sample_library_def)
  show ?thesis using sample_run[OF a b c] by simp
qed

end
